theory Spec2Isabelle
  imports Main "HOL-Library.Sublist" "HOL-Library.AList" "HOL-Library.Char_ord"
    "HOL-Library.List_Lexorder"
begin

section \<open>Strings\<close>

text \<open>
  Python strings are modelled as \<open>string\<close> (lists of 8-bit characters). The string
  methods the scraper calls are written out for the ASCII range; case mapping of
  characters outside \<open>a..z\<close> / \<open>A..Z\<close> is the identity here.
\<close>

definition lower_letters :: string where
  "lower_letters = ''abcdefghijklmnopqrstuvwxyz''"

definition upper_letters :: string where
  "upper_letters = ''ABCDEFGHIJKLMNOPQRSTUVWXYZ''"

definition upper_char :: "char \<Rightarrow> char" where
  "upper_char c = (case map_of (zip lower_letters upper_letters) c of Some C \<Rightarrow> C | None \<Rightarrow> c)"

definition lower_char :: "char \<Rightarrow> char" where
  "lower_char c = (case map_of (zip upper_letters lower_letters) c of Some C \<Rightarrow> C | None \<Rightarrow> c)"

text \<open>\<open>s.upper()\<close> and \<open>s.lower()\<close>.\<close>

definition upper :: "string \<Rightarrow> string" where
  "upper s = map upper_char s"

definition lower :: "string \<Rightarrow> string" where
  "lower s = map lower_char s"

text \<open>
  The characters \<open>str.isspace\<close> accepts below 128: tab, line feed, vertical tab, form
  feed, carriage return, the four separators 0x1C..0x1F and the space.
\<close>

definition is_space :: "char \<Rightarrow> bool" where
  "is_space c = (c \<in> set [CHR 0x09, CHR 0x0A, CHR 0x0B, CHR 0x0C, CHR 0x0D,
                            CHR 0x1C, CHR 0x1D, CHR 0x1E, CHR 0x1F, CHR 0x20])"

text \<open>\<open>s.strip()\<close>: leading and trailing whitespace removed.\<close>

definition strip :: "string \<Rightarrow> string" where
  "strip s = rev (dropWhile is_space (rev (dropWhile is_space s)))"

text \<open>
  \<open>s.split(sep, 1)\<close> for a one-character separator that occurs in \<open>s\<close>:
  \<open>split_before\<close> is element 0 of the result, \<open>split_after\<close> element 1.
\<close>

definition split_before :: "char \<Rightarrow> string \<Rightarrow> string" where
  "split_before sep s = takeWhile (\<lambda>c. c \<noteq> sep) s"

definition split_after :: "char \<Rightarrow> string \<Rightarrow> string" where
  "split_after sep s = tl (dropWhile (\<lambda>c. c \<noteq> sep) s)"

section \<open>Parsed pages\<close>

text \<open>
  A parsed document as BeautifulSoup presents it: a tree of text nodes and tags. A tag
  has its name, the list of its class tokens (the multi-valued \<open>class\<close> attribute), its
  other attributes, and its children in document order. The soup object itself is the
  root tag.
\<close>

datatype node = Text string | Tag string "string list" "(string \<times> string) list" "node list"

text \<open>All nodes strictly below a node, in document order.\<close>

fun descendants :: "node \<Rightarrow> node list" where
  "descendants (Text s) = []"
| "descendants (Tag nm cls attrs kids) = concat (map (\<lambda>k. k # descendants k) kids)"

text \<open>\<open>tag.get_text()\<close>: all text below the node, concatenated.\<close>

fun get_text :: "node \<Rightarrow> string" where
  "get_text (Text s) = s"
| "get_text (Tag nm cls attrs kids) = concat (map get_text kids)"

fun is_tag :: "string \<Rightarrow> (string list \<Rightarrow> bool) \<Rightarrow> node \<Rightarrow> bool" where
  "is_tag nm p (Text s) = False"
| "is_tag nm p (Tag nm' cls attrs kids) = (nm' = nm \<and> p cls)"

text \<open>
  \<open>soup.find_all(name, class_=p)\<close> and \<open>soup.find(name, class_=p)\<close>: the matching
  descendants in document order, and the first of them. A class filter is applied to
  the class tokens; a call without \<open>class_\<close> passes \<open>any_class\<close>.
\<close>

definition find_all :: "string \<Rightarrow> (string list \<Rightarrow> bool) \<Rightarrow> node \<Rightarrow> node list" where
  "find_all nm p soup = filter (is_tag nm p) (descendants soup)"

definition find_first :: "string \<Rightarrow> (string list \<Rightarrow> bool) \<Rightarrow> node \<Rightarrow> node option" where
  "find_first nm p soup = (case find_all nm p soup of [] \<Rightarrow> None | x # xs \<Rightarrow> Some x)"

definition any_class :: "string list \<Rightarrow> bool" where
  "any_class cls = True"

text \<open>\<open>class_='realm'\<close>, \<open>class_='ratingProgress'\<close>, \<open>class_='language'\<close>: some token equals the string.\<close>

definition has_class :: "string \<Rightarrow> string list \<Rightarrow> bool" where
  "has_class c cls = (c \<in> set cls)"

text \<open>\<open>class_=lambda x: x and 'guild' in x\<close>: some non-empty token contains \<open>guild\<close>.\<close>

definition class_contains_guild :: "string list \<Rightarrow> bool" where
  "class_contains_guild cls = list_ex (\<lambda>x. x \<noteq> [] \<and> sublist ''guild'' x) cls"

text \<open>\<open>tag.get(key, default)\<close>.\<close>

fun get_attr :: "string \<Rightarrow> string \<Rightarrow> node \<Rightarrow> string" where
  "get_attr key dflt (Text s) = dflt"
| "get_attr key dflt (Tag nm cls attrs kids) =
     (case map_of attrs key of Some v \<Rightarrow> v | None \<Rightarrow> dflt)"

section \<open>Termination oracle\<close>

text \<open>\<open>has_mythic_progress\<close> (main.py): the first \<open>b\<close> inside the last progress span.\<close>

definition has_mythic_progress :: "node \<Rightarrow> bool" where
  "has_mythic_progress soup =
     (let progress_spans = find_all ''span'' (has_class ''ratingProgress'') soup in
      if progress_spans = [] then False
      else (case find_first ''b'' any_class (last progress_spans) of
              Some last_progress \<Rightarrow> sublist ''(M)'' (get_text last_progress)
            | None \<Rightarrow> False))"

text \<open>\<open>has_heroic_progress\<close> (main_cloudscraper.py): the whole text of the last progress span.\<close>

definition has_heroic_progress :: "node \<Rightarrow> bool" where
  "has_heroic_progress soup =
     (let progress_spans = find_all ''span'' (has_class ''ratingProgress'') soup in
      if progress_spans = [] then False
      else sublist ''(H)'' (get_text (last progress_spans)))"

section \<open>Row extractor\<close>

text \<open>
  The final output record \<open>{name, realm, region}\<close>, and the candidate record the
  extractor builds, which has the detail URL as well.
\<close>

record final_guild =
  name :: string
  realm :: string
  region :: string

record guild = final_guild +
  url :: string

text \<open>
  The body of the loop over rows in \<open>extract_guilds_from_page\<close>: \<open>None\<close> is every
  \<open>continue\<close> (and a row whose region is not EU), \<open>Some g\<close> the appended record. None of
  the calls in the body raises on a parsed tree, so the \<open>except\<close> branch, which also
  continues with the next row, has no case of its own.
\<close>

definition extract_row :: "node \<Rightarrow> guild option" where
  "extract_row row =
     (case find_first ''a'' class_contains_guild row of
        None \<Rightarrow> None
      | Some guild_link \<Rightarrow>
          (case find_first ''nobr'' any_class guild_link of
             None \<Rightarrow> None
           | Some guild_nobr \<Rightarrow>
               (let guild_name = strip (get_text guild_nobr) in
                case find_first ''a'' (has_class ''realm'') row of
                  None \<Rightarrow> None
                | Some realm_link \<Rightarrow>
                    (let realm_text = strip (get_text realm_link) in
                     if CHR ''-'' \<in> set realm_text then
                       (let region_part = strip (split_before CHR ''-'' realm_text);
                            realm_part = strip (split_after CHR ''-'' realm_text)
                        in if upper region_part = ''EU''
                           then Some \<lparr>name = guild_name, realm = realm_part,
                                      region = region_part,
                                      url = get_attr ''href'' [] guild_link\<rparr>
                           else None)
                     else None))))"

fun extract_rows :: "node list \<Rightarrow> guild list \<Rightarrow> guild list" where
  "extract_rows [] acc = acc"
| "extract_rows (row # rows) acc =
     (case extract_row row of
        None \<Rightarrow> extract_rows rows acc
      | Some g \<Rightarrow> extract_rows rows (acc @ [g]))"

definition extract_guilds_from_page :: "node \<Rightarrow> guild list" where
  "extract_guilds_from_page soup = extract_rows (find_all ''tr'' any_class soup) []"


section \<open>Page fetcher\<close>

text \<open>
  One attempt of \<open>session.post\<close> followed by \<open>raise_for_status\<close> either yields the parsed
  content, raises \<open>HTTPError\<close> with a status code, or raises another exception. The
  network is a function from the URL, the \<open>Referer\<close> header and the number of the attempt
  to that outcome. Delays are not modelled.
\<close>

datatype response = Content node | HTTPError nat | OtherError

type_synonym net = "string \<Rightarrow> string option \<Rightarrow> nat \<Rightarrow> response"

definition BASE_URL :: string where
  "BASE_URL = ''https://www.wowprogress.com''"

definition START_TIER :: int where
  "START_TIER = 22"

definition END_TIER :: int where
  "END_TIER = 35"

definition retry_count :: nat where
  "retry_count = 3"

text \<open>
  The loop \<open>for attempt in range(retry_count)\<close> of \<open>fetch_page\<close>: a 403 always goes on
  to the next attempt, another HTTP error or exception returns \<open>None\<close> on the last
  attempt, and the loop running out returns \<open>None\<close>.
\<close>

fun fetch_attempts :: "(nat \<Rightarrow> response) \<Rightarrow> nat list \<Rightarrow> node option" where
  "fetch_attempts srv [] = None"
| "fetch_attempts srv (attempt # rest) =
     (case srv attempt of
        Content soup \<Rightarrow> Some soup
      | HTTPError status \<Rightarrow>
          (if status = 403 then fetch_attempts srv rest
           else if attempt = retry_count - 1 then None
           else fetch_attempts srv rest)
      | OtherError \<Rightarrow>
          (if attempt < retry_count - 1 then fetch_attempts srv rest else None))"

definition fetch_page :: "net \<Rightarrow> string \<Rightarrow> string option \<Rightarrow> node option" where
  "fetch_page nt u referer = fetch_attempts (nt u referer) [0..<retry_count]"

text \<open>\<open>str(n)\<close> for an integer, in decimal.\<close>

fun str_nat :: "nat \<Rightarrow> string" where
  "str_nat n = (if n < 10 then [''0123456789'' ! n]
                else str_nat (n div 10) @ [''0123456789'' ! (n mod 10)])"

declare str_nat.simps [simp del]

definition str_int :: "int \<Rightarrow> string" where
  "str_int i = (if i < 0 then CHR ''-'' # str_nat (nat (- i)) else str_nat (nat i))"

text \<open>\<open>f"{BASE_URL}/pve/rating/next/{page}/rating.tier{tier}"\<close>\<close>

definition page_url :: "int \<Rightarrow> int \<Rightarrow> string" where
  "page_url tier pg = BASE_URL @ ''/pve/rating/next/'' @ str_int pg @ ''/rating.tier'' @ str_int tier"

section \<open>Checkpoint store\<close>

text \<open>
  The three JSON files. The tier-progress file and the tier-records file are
  dictionaries keyed by \<open>str(tier)\<close>; the model keys them by the tier itself. A file that
  does not exist loads as the empty dictionary. Entries have the keys the scraper writes.
\<close>

record progress =
  last_page :: int
  guilds_count :: nat

record tier_data =
  completed :: bool
  guilds :: "guild list"

record files =
  tier_progress_file :: "int \<rightharpoonup> progress"
  guilds_with_mythic_file :: "int \<rightharpoonup> tier_data"
  final_guilds_file :: "final_guild list"

section \<open>Tier crawler\<close>

text \<open>The variables of the loop in \<open>scrape_tier_guilds\<close>, and the files.\<close>

record crawl_state =
  page :: int
  all_guilds :: "guild list"
  prev_url :: "string option"
  store :: files

definition referer_of :: "int \<Rightarrow> crawl_state \<Rightarrow> string" where
  "referer_of tier s =
     (case prev_url s of
        Some u \<Rightarrow> u
      | None \<Rightarrow> page_url tier (if page s > - 1 then page s - 1 else - 1))"

text \<open>
  One iteration of \<open>while True\<close>: \<open>Inr\<close> is a \<open>break\<close>, with the list the function then
  returns and the files as they are; \<open>Inl\<close> is the state at the start of the next
  iteration, after the checkpoint has been saved.
\<close>

definition scrape_step :: "net \<Rightarrow> int \<Rightarrow> crawl_state \<Rightarrow> crawl_state + guild list \<times> files" where
  "scrape_step nt tier s =
     (let u = page_url tier (page s) in
      case fetch_page nt u (Some (referer_of tier s)) of
        None \<Rightarrow> Inr (all_guilds s, store s)
      | Some soup \<Rightarrow>
          (let found = extract_guilds_from_page soup;
               acc = all_guilds s @ found
           in if \<not> has_mythic_progress soup then Inr (acc, store s)
              else
                (let tier_progress = tier_progress_file (store s);
                     tier_progress' = tier_progress(tier \<mapsto>
                       \<lparr>last_page = page s, guilds_count = length acc\<rparr>)
                 in Inl \<lparr>page = page s + 1, all_guilds = acc, prev_url = Some u,
                         store = (store s)\<lparr>tier_progress_file := tier_progress'\<rparr>\<rparr>)))"

partial_function (option) scrape_loop :: "net \<Rightarrow> int \<Rightarrow> crawl_state \<Rightarrow> (guild list \<times> files) option" where
  "scrape_loop nt tier s =
     (case scrape_step nt tier s of
        Inl s' \<Rightarrow> scrape_loop nt tier s'
      | Inr r \<Rightarrow> Some r)"

definition init_state :: "int \<Rightarrow> files \<Rightarrow> crawl_state" where
  "init_state start_page fs = \<lparr>page = start_page, all_guilds = [], prev_url = None, store = fs\<rparr>"

definition scrape_tier_guilds :: "net \<Rightarrow> int \<Rightarrow> int \<Rightarrow> files \<Rightarrow> (guild list \<times> files) option" where
  "scrape_tier_guilds nt tier start_page fs = scrape_loop nt tier (init_state start_page fs)"

text \<open>
  The state after \<open>n\<close> iterations that all went on to the next page; \<open>None\<close> when one of
  them left the loop.
\<close>

fun after_pages :: "nat \<Rightarrow> net \<Rightarrow> int \<Rightarrow> crawl_state \<Rightarrow> crawl_state option" where
  "after_pages 0 nt tier s = Some s"
| "after_pages (Suc n) nt tier s =
     (case scrape_step nt tier s of
        Inl s' \<Rightarrow> after_pages n nt tier s'
      | Inr r \<Rightarrow> None)"

text \<open>
  Two states of the loop at the same page, sending the same \<open>Referer\<close>, where the first
  has accumulated \<open>pre\<close> in front of what the second has.
\<close>

definition same_position :: "int \<Rightarrow> guild list \<Rightarrow> crawl_state \<Rightarrow> crawl_state \<Rightarrow> bool" where
  "same_position tier pre s t =
     (page s = page t \<and> referer_of tier s = referer_of tier t \<and> all_guilds s = pre @ all_guilds t)"

section \<open>Language filter\<close>

definition get_guild_language :: "net \<Rightarrow> string \<Rightarrow> string option" where
  "get_guild_language nt guild_url =
     (case fetch_page nt (BASE_URL @ guild_url) None of
        None \<Rightarrow> None
      | Some soup \<Rightarrow>
          (case find_first ''div'' (has_class ''language'') soup of
             None \<Rightarrow> None
           | Some lang_div \<Rightarrow>
               (let lang_text = get_text lang_div in
                if CHR '':'' \<in> set lang_text
                then Some (strip (split_after CHR '':'' lang_text))
                else None)))"

text \<open>\<open>language and language.lower() == 'finnish'\<close>\<close>

definition is_finnish :: "string option \<Rightarrow> bool" where
  "is_finnish language =
     (case language of None \<Rightarrow> False | Some l \<Rightarrow> l \<noteq> [] \<and> lower l = ''finnish'')"

definition final_record :: "guild \<Rightarrow> final_guild" where
  "final_record g = \<lparr>name = name g, realm = realm g, region = region g\<rparr>"

fun filter_loop :: "net \<Rightarrow> guild list \<Rightarrow> final_guild list \<times> files \<Rightarrow> final_guild list \<times> files" where
  "filter_loop nt [] (finnish_guilds, fs) = (finnish_guilds, fs)"
| "filter_loop nt (g # rest) (finnish_guilds, fs) =
     (let language = get_guild_language nt (url g) in
      if is_finnish language then
        (let finnish_guilds' = finnish_guilds @ [final_record g]
         in filter_loop nt rest (finnish_guilds', fs\<lparr>final_guilds_file := finnish_guilds'\<rparr>))
      else filter_loop nt rest (finnish_guilds, fs))"

definition filter_finnish_guilds :: "net \<Rightarrow> guild list \<Rightarrow> files \<Rightarrow> final_guild list \<times> files" where
  "filter_finnish_guilds nt candidates fs = filter_loop nt candidates ([], fs)"

section \<open>Orchestrator\<close>

text \<open>\<open>range(start, stop, -1)\<close>\<close>

definition range_down :: "int \<Rightarrow> int \<Rightarrow> int list" where
  "range_down start stop = map (\<lambda>i. start - int i) [0..<nat (start - stop)]"

definition tier_range :: "int list" where
  "tier_range = range_down END_TIER (START_TIER - 1)"

text \<open>\<open>f"{guild['name']}|{guild['realm']}"\<close>\<close>

definition guild_key :: "guild \<Rightarrow> string" where
  "guild_key g = name g @ ''|'' @ realm g"

text \<open>
  \<open>unique_guilds\<close> is a dictionary, which keeps its keys in the order of their first
  insertion: an association list, where assigning to a key that is present replaces
  the value in place and assigning to a new key appends.
\<close>

fun merge_guilds :: "guild list \<Rightarrow> (string \<times> guild) list \<Rightarrow> (string \<times> guild) list" where
  "merge_guilds [] unique_guilds = unique_guilds"
| "merge_guilds (g # rest) unique_guilds =
     merge_guilds rest (AList.update (guild_key g) g unique_guilds)"

text \<open>\<open>tier_key in all_guilds_data and all_guilds_data[tier_key].get('completed', False)\<close>\<close>

definition is_completed :: "(int \<rightharpoonup> tier_data) \<Rightarrow> int \<Rightarrow> bool" where
  "is_completed all_guilds_data tier =
     (case all_guilds_data tier of None \<Rightarrow> False | Some d \<Rightarrow> completed d)"

definition start_page_of :: "(int \<rightharpoonup> progress) \<Rightarrow> int \<Rightarrow> int" where
  "start_page_of tier_progress tier =
     (case tier_progress tier of None \<Rightarrow> - 1 | Some p \<Rightarrow> last_page p + 1)"

text \<open>
  The variables the loop over tiers of \<open>main\<close> changes: \<open>all_guilds_data\<close>,
  \<open>unique_guilds\<close> and the files. \<open>tier_progress\<close> is what \<open>main\<close> loaded before the loop.
\<close>

type_synonym main_state = "(int \<rightharpoonup> tier_data) \<times> (string \<times> guild) list \<times> files"

definition process_tier :: "net \<Rightarrow> (int \<rightharpoonup> progress) \<Rightarrow> int \<Rightarrow> main_state \<Rightarrow> main_state option" where
  "process_tier nt tier_progress tier st =
     (case st of (all_guilds_data, unique_guilds, fs) \<Rightarrow>
        if is_completed all_guilds_data tier then
          Some (all_guilds_data,
                merge_guilds (guilds (the (all_guilds_data tier))) unique_guilds, fs)
        else
          (case scrape_tier_guilds nt tier (start_page_of tier_progress tier) fs of
             None \<Rightarrow> None
           | Some (found, fs1) \<Rightarrow>
               (let all_guilds_data' = all_guilds_data(tier \<mapsto> \<lparr>completed = True, guilds = found\<rparr>)
                in Some (all_guilds_data', merge_guilds found unique_guilds,
                         fs1\<lparr>guilds_with_mythic_file := all_guilds_data'\<rparr>))))"

fun process_tiers :: "net \<Rightarrow> (int \<rightharpoonup> progress) \<Rightarrow> int list \<Rightarrow> main_state \<Rightarrow> main_state option" where
  "process_tiers nt tier_progress [] st = Some st"
| "process_tiers nt tier_progress (tier # rest) st =
     (case process_tier nt tier_progress tier st of
        None \<Rightarrow> None
      | Some st' \<Rightarrow> process_tiers nt tier_progress rest st')"

definition main :: "net \<Rightarrow> files \<Rightarrow> (final_guild list \<times> files) option" where
  "main nt fs =
     (case process_tiers nt (tier_progress_file fs) tier_range
             (guilds_with_mythic_file fs, [], fs) of
        None \<Rightarrow> None
      | Some (all_guilds_data, unique_guilds, fs1) \<Rightarrow>
          (let all_unique_guilds = map snd unique_guilds in
           case filter_finnish_guilds nt all_unique_guilds fs1 of
             (finnish_guilds, fs2) \<Rightarrow>
               Some (finnish_guilds, fs2\<lparr>final_guilds_file := finnish_guilds\<rparr>)))"

section \<open>Offline combine tool\<close>





section \<open>Example pages, networks and files\<close>

text \<open>Rows and pages shaped like the ranking site's listing.\<close>

definition guild_cell :: "string \<Rightarrow> string \<Rightarrow> node" where
  "guild_cell href nm = Tag ''td'' [] []
     [Tag ''a'' [''guild'', ''horde''] [(''href'', href)] [Tag ''nobr'' [] [] [Text nm]]]"

definition realm_cell :: "string \<Rightarrow> node" where
  "realm_cell txt = Tag ''td'' [] [] [Tag ''a'' [''realm''] [(''href'', ''/pve/eu'')] [Text txt]]"

definition progress_cell :: "string \<Rightarrow> node" where
  "progress_cell txt = Tag ''td'' [] []
     [Tag ''span'' [''innerLink'', ''ratingProgress''] [] [Tag ''b'' [] [] [Text txt]]]"

definition listing_row :: "string \<Rightarrow> string \<Rightarrow> string \<Rightarrow> string \<Rightarrow> node" where
  "listing_row href nm realm_txt progress =
     Tag ''tr'' [] [] [guild_cell href nm, realm_cell realm_txt, progress_cell progress]"

definition example_page :: node where
  "example_page = Tag ''[document]'' [] []
     [Tag ''table'' [''rating''] []
       [Tag ''tr'' [] [] [Tag ''th'' [] [] [Text ''Guild'']],
        Tag ''tr'' [] [] [guild_cell ''/guild/eu/kazzak/Alpha'' '' Alpha '', realm_cell ''EU-Kazzak'', progress_cell ''8/8 (M)''],
        Tag ''tr'' [] [] [guild_cell ''/guild/us/illidan/Bravo'' ''Bravo'', realm_cell ''US-Illidan'', progress_cell ''8/8 (M)''],
        Tag ''tr'' [] [] [guild_cell ''/guild/eu/x/Charlie'' ''Charlie'', realm_cell ''Kazzak'', progress_cell ''7/8 (M)''],
        Tag ''tr'' [] [] [Tag ''td'' [] [] [Tag ''a'' [''guild''] [] [Text ''Delta'']], realm_cell ''EU-Kazzak''],
        Tag ''tr'' [] [] [guild_cell ''/guild/eu/twisting-nether/Echo'' ''Echo'', realm_cell ''eu-Twisting Nether'', progress_cell ''8/8 (H)'']]]"

definition page_a :: node where
  "page_a = Tag ''[document]'' [] []
     [Tag ''table'' [''rating''] []
       [listing_row ''/guild/eu/kazzak/Alpha'' ''Alpha'' ''EU-Kazzak'' ''8/8 (M)'']]"

definition page_b :: node where
  "page_b = Tag ''[document]'' [] []
     [Tag ''table'' [''rating''] []
       [listing_row ''/guild/eu/kazzak/Bravo'' ''Bravo'' ''EU-Kazzak'' ''8/8 (H)'']]"

definition plain_marker_page :: node where
  "plain_marker_page = Tag ''[document]'' [] []
     [Tag ''table'' [''rating''] []
       [Tag ''tr'' [] []
         [guild_cell ''/guild/eu/kazzak/Alpha'' ''Alpha'', realm_cell ''EU-Kazzak'',
          Tag ''td'' [] [] [Tag ''span'' [''innerLink'', ''ratingProgress''] [] [Text ''8/8 (M)'']]]]]"

definition language_page :: "string \<Rightarrow> node" where
  "language_page txt = Tag ''[document]'' [] []
     [Tag ''div'' [''guildInfo''] [] [Text ''Kazzak''],
      Tag ''div'' [''language''] [] [Text txt]]"

text \<open>The records these pages hold.\<close>

definition alpha_guild :: guild where
  "alpha_guild = \<lparr>name = ''Alpha'', realm = ''Kazzak'', region = ''EU'', url = ''/guild/eu/kazzak/Alpha''\<rparr>"

definition bravo_guild :: guild where
  "bravo_guild = \<lparr>name = ''Bravo'', realm = ''Kazzak'', region = ''EU'', url = ''/guild/eu/kazzak/Bravo''\<rparr>"

definition echo_guild :: guild where
  "echo_guild = \<lparr>name = ''Echo'', realm = ''Twisting Nether'', region = ''eu'',
                 url = ''/guild/eu/twisting-nether/Echo''\<rparr>"

definition gone_guild :: guild where
  "gone_guild = \<lparr>name = ''Gone'', realm = ''Kazzak'', region = ''EU'', url = ''/guild/eu/kazzak/Gone''\<rparr>"

definition alpha_old :: guild where
  "alpha_old = \<lparr>name = ''Alpha'', realm = ''Kazzak'', region = ''EU'', url = ''/guild/eu/kazzak/Alpha+old''\<rparr>"

text \<open>
  Networks: tier 35 with its two pages; the same with the second page unreachable; a
  site that never answers; and the detail pages of four guilds, one of them behind a
  403 on the first attempt and one unreachable.
\<close>

definition example_net_up :: net where
  "example_net_up u referer attempt =
     (if u = page_url 35 (- 1) then Content page_a
      else if u = page_url 35 0 then Content page_b
      else OtherError)"

definition example_net_down :: net where
  "example_net_down u referer attempt =
     (if u = page_url 35 (- 1) then Content page_a else OtherError)"

definition example_net_dead :: net where
  "example_net_dead u referer attempt = OtherError"

definition example_net_lang :: net where
  "example_net_lang u referer attempt =
     (if u = BASE_URL @ ''/guild/eu/kazzak/Alpha'' then Content (language_page ''Primary Language: Finnish'')
      else if u = BASE_URL @ ''/guild/eu/kazzak/Bravo'' then Content (language_page ''Primary Language:Swedish'')
      else if u = BASE_URL @ ''/guild/eu/twisting-nether/Echo''
        then (if attempt = 0 then HTTPError 403 else Content (language_page ''Primary Language: FINNISH''))
      else OtherError)"

text \<open>
  Files: none yet; after the checkpoint of the first page of tier 35; and after the
  orchestrator has stored that tier.
\<close>

definition no_files :: files where
  "no_files = \<lparr>tier_progress_file = Map.empty, guilds_with_mythic_file = Map.empty,
               final_guilds_file = []\<rparr>"

definition checkpoint_files :: files where
  "checkpoint_files = \<lparr>tier_progress_file = [35 \<mapsto> \<lparr>last_page = - 1, guilds_count = 1\<rparr>],
                       guilds_with_mythic_file = Map.empty, final_guilds_file = []\<rparr>"

definition partial_data :: "int \<rightharpoonup> tier_data" where
  "partial_data = [35 \<mapsto> \<lparr>completed = True, guilds = [alpha_guild]\<rparr>]"

definition files_after_failure :: files where
  "files_after_failure = \<lparr>tier_progress_file = [35 \<mapsto> \<lparr>last_page = - 1, guilds_count = 1\<rparr>],
                          guilds_with_mythic_file = partial_data, final_guilds_file = []\<rparr>"

definition state_after_first_page :: crawl_state where
  "state_after_first_page = \<lparr>page = 0, all_guilds = [alpha_guild],
      prev_url = Some (page_url 35 (- 1)), store = checkpoint_files\<rparr>"

definition two_tier_data :: "int \<rightharpoonup> tier_data" where
  "two_tier_data = [35 \<mapsto> \<lparr>completed = True, guilds = [alpha_guild]\<rparr>,
                    22 \<mapsto> \<lparr>completed = True, guilds = [alpha_old]\<rparr>]"

section \<open>Evaluating the examples\<close>

lemmas dom_defs = find_all_def find_first_def has_class_def any_class_def class_contains_guild_def
  sublist_code

lemmas str_defs = strip_def is_space_def split_before_def split_after_def upper_def lower_def
  upper_char_def lower_char_def lower_letters_def upper_letters_def

lemmas page_defs = page_a_def page_b_def plain_marker_page_def example_page_def listing_row_def
  guild_cell_def realm_cell_def progress_cell_def

lemma attempts_upt: "[0..<retry_count] = [0, 1, 2]"
  by code_simp

lemma fetch_page_attempts: "fetch_page nt u r = fetch_attempts (nt u r) [0, 1, 2]"
  by (simp only: fetch_page_def attempts_upt)

lemma fetch_page_fails:
  "\<forall>i < retry_count. \<forall>soup. nt u r i \<noteq> Content soup \<Longrightarrow> fetch_page nt u r = None"
  by (auto simp: fetch_page_attempts retry_count_def split: response.splits)

lemma fetch_page_first: "nt u r 0 = Content soup \<Longrightarrow> fetch_page nt u r = Some soup"
  by (simp add: fetch_page_attempts)

section \<open>Termination oracle: only the last progress span\<close>

lemma get_text_child: "k \<in> set kids \<Longrightarrow> sublist (get_text k) (concat (map get_text kids))"
proof -
  assume "k \<in> set kids"
  then obtain xs ys where "kids = xs @ k # ys"
    by (auto simp: in_set_conv_decomp)
  then have "concat (map get_text kids)
      = concat (map get_text xs) @ get_text k @ concat (map get_text ys)"
    by simp
  then show ?thesis
    by (simp only: sublist_appendI)
qed

lemma get_text_descendant: "d \<in> set (descendants n) \<Longrightarrow> sublist (get_text d) (get_text n)"
proof (induction n arbitrary: d)
  case (Text s)
  then show ?case by simp
next
  case (Tag nm cls attrs kids)
  from Tag.prems obtain k where k: "k \<in> set kids" and d: "d = k \<or> d \<in> set (descendants k)"
    by auto
  have top: "sublist (get_text k) (get_text (Tag nm cls attrs kids))"
    using get_text_child [OF k] by simp
  from d show ?case
  proof
    assume "d = k"
    with top show ?thesis by simp
  next
    assume "d \<in> set (descendants k)"
    then have "sublist (get_text d) (get_text k)"
      using Tag.IH k by blast
    then show ?thesis using top
      by (rule sublist_order.order.trans)
  qed
qed

lemma find_first_descendant: "find_first nm p n = Some d \<Longrightarrow> d \<in> set (descendants n)"
proof -
  assume "find_first nm p n = Some d"
  then obtain xs where "find_all nm p n = d # xs"
    by (auto simp: find_first_def split: list.splits)
  then have "d \<in> set (filter (is_tag nm p) (descendants n))"
    by (simp add: find_all_def)
  then show ?thesis by simp
qed

lemma mythic_a: "has_mythic_progress page_a"
  by (simp add: has_mythic_progress_def page_defs dom_defs)

lemma mythic_b: "\<not> has_mythic_progress page_b"
  by (simp add: has_mythic_progress_def page_defs dom_defs)

text \<open>
  C4 (as amended). A page without progress spans stops the crawl. Otherwise the decision
  is a function of the last progress span alone: the mythic oracle continues iff the
  first \<open>b\<close> element inside that span exists and its text contains \<open>(M)\<close>, the heroic
  oracle iff the text of that span contains \<open>(H)\<close>. When the mythic oracle continues, the
  span's text contains \<open>(M)\<close>; two pages with the same last progress span get the same
  decision, whatever their earlier spans hold.
\<close>

theorem oracle_last:
  "(find_all ''span'' (has_class ''ratingProgress'') soup = [] \<longrightarrow>
      \<not> has_mythic_progress soup \<and> \<not> has_heroic_progress soup)
   \<and> (find_all ''span'' (has_class ''ratingProgress'') soup \<noteq> [] \<longrightarrow>
      has_mythic_progress soup =
        (\<exists>b. find_first ''b'' any_class (last (find_all ''span'' (has_class ''ratingProgress'') soup)) = Some b
              \<and> sublist ''(M)'' (get_text b))
      \<and> has_heroic_progress soup =
          sublist ''(H)'' (get_text (last (find_all ''span'' (has_class ''ratingProgress'') soup))))
   \<and> (has_mythic_progress soup \<longrightarrow>
        sublist ''(M)'' (get_text (last (find_all ''span'' (has_class ''ratingProgress'') soup))))
   \<and> (find_all ''span'' (has_class ''ratingProgress'') soup \<noteq> []
      \<and> find_all ''span'' (has_class ''ratingProgress'') soup' \<noteq> []
      \<and> last (find_all ''span'' (has_class ''ratingProgress'') soup)
          = last (find_all ''span'' (has_class ''ratingProgress'') soup') \<longrightarrow>
        has_mythic_progress soup = has_mythic_progress soup'
        \<and> has_heroic_progress soup = has_heroic_progress soup')"
proof -
  define spans where "spans = find_all ''span'' (has_class ''ratingProgress'') soup"
  define spans' where "spans' = find_all ''span'' (has_class ''ratingProgress'') soup'"
  have m: "has_mythic_progress soup =
      (spans \<noteq> [] \<and> (\<exists>b. find_first ''b'' any_class (last spans) = Some b \<and> sublist ''(M)'' (get_text b)))"
    by (auto simp: has_mythic_progress_def spans_def Let_def split: option.splits)
  have m': "has_mythic_progress soup' =
      (spans' \<noteq> [] \<and> (\<exists>b. find_first ''b'' any_class (last spans') = Some b \<and> sublist ''(M)'' (get_text b)))"
    by (auto simp: has_mythic_progress_def spans'_def Let_def split: option.splits)
  have h: "has_heroic_progress soup = (spans \<noteq> [] \<and> sublist ''(H)'' (get_text (last spans)))"
    by (auto simp: has_heroic_progress_def spans_def Let_def)
  have h': "has_heroic_progress soup' = (spans' \<noteq> [] \<and> sublist ''(H)'' (get_text (last spans')))"
    by (auto simp: has_heroic_progress_def spans'_def Let_def)
  have inner: "sublist ''(M)'' (get_text (last spans))" if "has_mythic_progress soup"
  proof -
    from that m obtain b where b: "find_first ''b'' any_class (last spans) = Some b"
      and mb: "sublist ''(M)'' (get_text b)"
      by blast
    from find_first_descendant [OF b] have "sublist (get_text b) (get_text (last spans))"
      by (rule get_text_descendant)
    with mb show ?thesis
      by (rule sublist_order.order.trans)
  qed
  from m m' h h' inner show ?thesis
    unfolding spans_def spans'_def by metis
qed

text \<open>
  The example page has \<open>(M)\<close> on earlier rows and \<open>(H)\<close> on its last row, the same last
  span as \<open>page_b\<close>: the mythic oracle stops, the heroic one continues. \<open>page_a\<close> ends
  with \<open>(M)\<close> in bold and continues; an empty document stops.
\<close>

theorem oracle_last_witness:
  "find_all ''span'' (has_class ''ratingProgress'') example_page \<noteq> []
   \<and> last (find_all ''span'' (has_class ''ratingProgress'') example_page)
       = last (find_all ''span'' (has_class ''ratingProgress'') page_b)
   \<and> \<not> has_mythic_progress example_page
   \<and> has_heroic_progress example_page
   \<and> has_mythic_progress page_a
   \<and> sublist ''(M)'' (get_text (last (find_all ''span'' (has_class ''ratingProgress'') page_a)))
   \<and> \<not> has_mythic_progress (Tag ''[document]'' [] [] [])"
proof -
  have spans_b: "find_all ''span'' (has_class ''ratingProgress'') page_b
      = [Tag ''span'' [''innerLink'', ''ratingProgress''] [] [Tag ''b'' [] [] [Text ''8/8 (H)'']]]"
    by (simp add: page_defs dom_defs)
  have ne: "find_all ''span'' (has_class ''ratingProgress'') example_page \<noteq> []"
    by (simp add: page_defs dom_defs)
  have same: "last (find_all ''span'' (has_class ''ratingProgress'') example_page)
       = last (find_all ''span'' (has_class ''ratingProgress'') page_b)"
    by (simp add: page_defs dom_defs)
  have none: "find_all ''span'' (has_class ''ratingProgress'') (Tag ''[document]'' [] [] []) = []"
    by (simp add: dom_defs)
  have neb: "find_all ''span'' (has_class ''ratingProgress'') page_b \<noteq> []"
    by (simp add: spans_b)
  note same_last = conjunct2 [OF conjunct2 [OF conjunct2 [OF oracle_last [of example_page page_b]]]]
  from same_last ne neb same
  have eq: "has_mythic_progress example_page = has_mythic_progress page_b
      \<and> has_heroic_progress example_page = has_heroic_progress page_b"
    by blast
  from eq mythic_b have x: "\<not> has_mythic_progress example_page"
    by simp
  from eq have h: "has_heroic_progress example_page = has_heroic_progress page_b"
    by simp
  have hb: "has_heroic_progress page_b"
    by (simp add: has_heroic_progress_def page_defs dom_defs)
  from oracle_last [of page_a page_a] mythic_a
  have in_text: "sublist ''(M)'' (get_text (last (find_all ''span'' (has_class ''ratingProgress'') page_a)))"
    by blast
  from oracle_last [of "Tag ''[document]'' [] [] []" page_a] none
  have empty: "\<not> has_mythic_progress (Tag ''[document]'' [] [] [])"
    by blast
  from ne same x h hb mythic_a in_text empty show ?thesis
    by simp
qed

text \<open>
  The claim as stated fails for the mythic oracle: the last progress span of this page
  carries \<open>(M)\<close> in its text, not inside a \<open>b\<close> element, and the oracle stops.
\<close>

theorem marker_outside_bold:
  "find_all ''span'' (has_class ''ratingProgress'') plain_marker_page \<noteq> []
   \<and> sublist ''(M)'' (get_text (last (find_all ''span'' (has_class ''ratingProgress'') plain_marker_page)))
   \<and> \<not> has_mythic_progress plain_marker_page"
  by (simp add: has_mythic_progress_def page_defs dom_defs)

section \<open>Row extractor: one record per valid EU row, in row order\<close>







section \<open>Language classifier\<close>



lemma lang_alpha: "fetch_page example_net_lang (BASE_URL @ ''/guild/eu/kazzak/Alpha'') None
    = Some (language_page ''Primary Language: Finnish'')"
  by (simp add: fetch_page_attempts example_net_lang_def)

lemma lang_bravo: "fetch_page example_net_lang (BASE_URL @ ''/guild/eu/kazzak/Bravo'') None
    = Some (language_page ''Primary Language:Swedish'')"
  by (simp add: fetch_page_attempts example_net_lang_def BASE_URL_def)

lemma lang_echo: "fetch_page example_net_lang (BASE_URL @ ''/guild/eu/twisting-nether/Echo'') None
    = Some (language_page ''Primary Language: FINNISH'')"
  by (simp add: fetch_page_attempts example_net_lang_def BASE_URL_def)

lemma lang_gone: "fetch_page example_net_lang (BASE_URL @ ''/guild/eu/kazzak/Gone'') None = None"
  by (simp add: fetch_page_attempts example_net_lang_def BASE_URL_def retry_count_def)

lemma lang_div: "find_first ''div'' (has_class ''language'') (language_page txt)
    = Some (Tag ''div'' [''language''] [] [Text txt])"
  by (simp add: language_page_def dom_defs)



section \<open>Language filter\<close>

lemma filter_loop_acc:
  "fst (filter_loop nt cands (acc, fs))
     = acc @ map final_record (filter (\<lambda>g. is_finnish (get_guild_language nt (url g))) cands)"
  by (induction cands arbitrary: acc fs) (auto simp: Let_def)

lemma language_values:
  "get_guild_language example_net_lang ''/guild/eu/kazzak/Alpha'' = Some ''Finnish''"
  "get_guild_language example_net_lang ''/guild/eu/kazzak/Bravo'' = Some ''Swedish''"
  "get_guild_language example_net_lang ''/guild/eu/twisting-nether/Echo'' = Some ''FINNISH''"
  "get_guild_language example_net_lang ''/guild/eu/kazzak/Gone'' = None"
  by (simp_all add: get_guild_language_def lang_alpha lang_bravo lang_echo lang_gone lang_div
      str_defs)

text \<open>
  C8. The result of the filter pass is, in input order, the final records of exactly
  the candidates whose classified language is present and equals \<open>finnish\<close> in lower
  case; a final record has the candidate's name, realm and region (and no URL field); a
  candidate whose page cannot be fetched is no match, and the pass goes on with the
  candidates after it.
\<close>

theorem filter_finnish_guilds_keeps:
  "fst (filter_finnish_guilds nt cands fs)
     = map final_record (filter (\<lambda>g. is_finnish (get_guild_language nt (url g))) cands)
   \<and> (\<forall>l. is_finnish l = (\<exists>s. l = Some s \<and> lower s = ''finnish''))
   \<and> (\<forall>g. name (final_record g) = name g \<and> realm (final_record g) = realm g
           \<and> region (final_record g) = region g)
   \<and> (\<forall>g. fetch_page nt (BASE_URL @ url g) None = None \<longrightarrow>
          \<not> is_finnish (get_guild_language nt (url g))
          \<and> (\<forall>before after. fst (filter_finnish_guilds nt (before @ g # after) fs)
                = fst (filter_finnish_guilds nt before fs) @ fst (filter_finnish_guilds nt after fs)))"
proof -
  have a: "fst (filter_finnish_guilds nt cs fs)
     = map final_record (filter (\<lambda>g. is_finnish (get_guild_language nt (url g))) cs)" for cs
    by (simp add: filter_finnish_guilds_def filter_loop_acc)
  have b: "is_finnish l = (\<exists>s. l = Some s \<and> lower s = ''finnish'')" for l
    by (cases l) (auto simp: is_finnish_def lower_def)
  have c: "\<not> is_finnish (get_guild_language nt (url g))"
    if "fetch_page nt (BASE_URL @ url g) None = None" for g
    using that by (simp add: get_guild_language_def is_finnish_def)
  have d: "name (final_record g) = name g \<and> realm (final_record g) = realm g
      \<and> region (final_record g) = region g" for g
    by (simp add: final_record_def)
  have e: "fst (filter_finnish_guilds nt (before @ g # after) fs)
      = fst (filter_finnish_guilds nt before fs) @ fst (filter_finnish_guilds nt after fs)"
    if "fetch_page nt (BASE_URL @ url g) None = None" for g before after
    using c [OF that] by (simp add: a)
  have B: "\<forall>l. is_finnish l = (\<exists>s. l = Some s \<and> lower s = ''finnish'')"
    using b by blast
  have C: "\<forall>g. name (final_record g) = name g \<and> realm (final_record g) = realm g
           \<and> region (final_record g) = region g"
    using d by blast
  have D: "\<forall>g. fetch_page nt (BASE_URL @ url g) None = None \<longrightarrow>
          \<not> is_finnish (get_guild_language nt (url g))
          \<and> (\<forall>before after. fst (filter_finnish_guilds nt (before @ g # after) fs)
                = fst (filter_finnish_guilds nt before fs) @ fst (filter_finnish_guilds nt after fs))"
    using c e by blast
  show ?thesis
    by (rule conjI [OF a [of cands] conjI [OF B conjI [OF C D]]])
qed

text \<open>
  Alpha is Finnish, Bravo Swedish, Gone unreachable, and Echo answers \<open>FINNISH\<close> on the
  second attempt: Alpha and Echo are kept.
\<close>

theorem filter_finnish_guilds_keeps_witness:
  "fetch_page example_net_lang (BASE_URL @ url gone_guild) None = None
   \<and> fst (filter_finnish_guilds example_net_lang
            [alpha_guild, bravo_guild, gone_guild, echo_guild] no_files)
     = [\<lparr>name = ''Alpha'', realm = ''Kazzak'', region = ''EU''\<rparr>,
        \<lparr>name = ''Echo'', realm = ''Twisting Nether'', region = ''eu''\<rparr>]"
proof -
  have gone: "fetch_page example_net_lang (BASE_URL @ url gone_guild) None = None"
    by (simp add: gone_guild_def lang_gone)
  have "fst (filter_finnish_guilds example_net_lang
            [alpha_guild, bravo_guild, gone_guild, echo_guild] no_files)
      = map final_record (filter (\<lambda>g. is_finnish (get_guild_language example_net_lang (url g)))
          [alpha_guild, bravo_guild, gone_guild, echo_guild])"
    using filter_finnish_guilds_keeps
      [of example_net_lang "[alpha_guild, bravo_guild, gone_guild, echo_guild]" no_files]
    by (rule conjunct1)
  with gone show ?thesis
    by (simp add: alpha_guild_def bravo_guild_def gone_guild_def echo_guild_def language_values
        is_finnish_def final_record_def str_defs)
qed

section \<open>Tier crawler: runs of the loop\<close>

lemma scrape_step_fail:
  "fetch_page nt (page_url tier (page s)) (Some (referer_of tier s)) = None \<Longrightarrow>
   scrape_step nt tier s = Inr (all_guilds s, store s)"
  by (simp add: scrape_step_def)

lemma scrape_step_stop:
  "fetch_page nt (page_url tier (page s)) (Some (referer_of tier s)) = Some soup \<Longrightarrow>
   \<not> has_mythic_progress soup \<Longrightarrow>
   scrape_step nt tier s = Inr (all_guilds s @ extract_guilds_from_page soup, store s)"
  by (simp add: scrape_step_def Let_def)

lemma scrape_step_cont:
  "fetch_page nt (page_url tier (page s)) (Some (referer_of tier s)) = Some soup \<Longrightarrow>
   has_mythic_progress soup \<Longrightarrow>
   scrape_step nt tier s =
     Inl \<lparr>page = page s + 1,
          all_guilds = all_guilds s @ extract_guilds_from_page soup,
          prev_url = Some (page_url tier (page s)),
          store = (store s)\<lparr>tier_progress_file := (tier_progress_file (store s))(tier \<mapsto>
            \<lparr>last_page = page s,
             guilds_count = length (all_guilds s @ extract_guilds_from_page soup)\<rparr>)\<rparr>\<rparr>"
  by (simp add: scrape_step_def Let_def)

lemma scrape_step_Inr_store: "scrape_step nt tier s = Inr r \<Longrightarrow> snd r = store s"
  by (auto simp: scrape_step_def Let_def split: option.splits if_splits)

lemma scrape_step_Inl:
  "scrape_step nt tier s = Inl s' \<Longrightarrow>
   \<exists>soup. fetch_page nt (page_url tier (page s)) (Some (referer_of tier s)) = Some soup
     \<and> has_mythic_progress soup
     \<and> s' = \<lparr>page = page s + 1,
             all_guilds = all_guilds s @ extract_guilds_from_page soup,
             prev_url = Some (page_url tier (page s)),
             store = (store s)\<lparr>tier_progress_file := (tier_progress_file (store s))(tier \<mapsto>
               \<lparr>last_page = page s,
                guilds_count = length (all_guilds s @ extract_guilds_from_page soup)\<rparr>)\<rparr>\<rparr>"
  by (auto simp: scrape_step_def Let_def split: option.splits if_splits)

lemma scrape_loop_Inr: "scrape_step nt tier s = Inr r \<Longrightarrow> scrape_loop nt tier s = Some r"
  by (subst scrape_loop.simps) simp

lemma scrape_loop_Inl: "scrape_step nt tier s = Inl s' \<Longrightarrow> scrape_loop nt tier s = scrape_loop nt tier s'"
  by (subst scrape_loop.simps) simp

lemma scrape_loop_after_pages:
  "after_pages n nt tier s = Some s' \<Longrightarrow> scrape_loop nt tier s = scrape_loop nt tier s'"
proof (induction n arbitrary: s)
  case 0
  then show ?case by simp
next
  case (Suc n)
  then obtain s1 where s1: "scrape_step nt tier s = Inl s1" and "after_pages n nt tier s1 = Some s'"
    by (auto split: sum.splits)
  with Suc.IH have "scrape_loop nt tier s1 = scrape_loop nt tier s'"
    by simp
  with scrape_loop_Inl [OF s1] show ?case by simp
qed

lemma after_pages_Suc_end:
  "after_pages (Suc n) nt tier s = Some s'' \<longleftrightarrow>
   (\<exists>s'. after_pages n nt tier s = Some s' \<and> scrape_step nt tier s' = Inl s'')"
proof (induction n arbitrary: s)
  case 0
  then show ?case by (auto split: sum.splits)
next
  case (Suc n)
  show ?case
  proof (cases "scrape_step nt tier s")
    case (Inl s1)
    then show ?thesis using Suc.IH [of s1] by simp
  next
    case (Inr r)
    then show ?thesis by simp
  qed
qed

lemma scrape_loop_Some_run:
  assumes "scrape_loop nt tier s = Some r"
  shows "\<exists>n s'. after_pages n nt tier s = Some s' \<and> scrape_step nt tier s' = Inr r"
proof (rule scrape_loop.raw_induct
    [where P = "\<lambda>nt tier s r. \<exists>n s'. after_pages n nt tier s = Some s' \<and> scrape_step nt tier s' = Inr r",
     OF _ assms])
  fix loop :: "net \<Rightarrow> int \<Rightarrow> crawl_state \<Rightarrow> (guild list \<times> files) option"
  fix nt tier s r
  assume ih: "\<And>nt tier s r. loop nt tier s = Some r \<Longrightarrow>
      \<exists>n s'. after_pages n nt tier s = Some s' \<and> scrape_step nt tier s' = Inr r"
  assume eq: "(case scrape_step nt tier s of Inl s' \<Rightarrow> loop nt tier s' | Inr r \<Rightarrow> Some r) = Some r"
  show "\<exists>n s'. after_pages n nt tier s = Some s' \<and> scrape_step nt tier s' = Inr r"
  proof (cases "scrape_step nt tier s")
    case (Inl s1)
    with eq have "loop nt tier s1 = Some r" by simp
    from ih [OF this] obtain n s' where "after_pages n nt tier s1 = Some s'"
      and fin: "scrape_step nt tier s' = Inr r"
      by blast
    with Inl have "after_pages (Suc n) nt tier s = Some s'" by simp
    with fin show ?thesis by blast
  next
    case (Inr r')
    with eq have "r' = r" by simp
    with Inr have "after_pages 0 nt tier s = Some s \<and> scrape_step nt tier s = Inr r" by simp
    then show ?thesis by blast
  qed
qed

lemma after_pages_invariant:
  "after_pages n nt tier (init_state start fs0) = Some s \<Longrightarrow>
   page s = start + int n
   \<and> guilds_with_mythic_file (store s) = guilds_with_mythic_file fs0
   \<and> final_guilds_file (store s) = final_guilds_file fs0
   \<and> (\<forall>t. t \<noteq> tier \<longrightarrow> tier_progress_file (store s) t = tier_progress_file fs0 t)
   \<and> (n = 0 \<longrightarrow> store s = fs0 \<and> all_guilds s = [] \<and> prev_url s = None)
   \<and> (0 < n \<longrightarrow> prev_url s = Some (page_url tier (page s - 1))
        \<and> tier_progress_file (store s) tier
            = Some \<lparr>last_page = page s - 1, guilds_count = length (all_guilds s)\<rparr>)"
proof (induction n arbitrary: s)
  case 0
  then show ?case by (auto simp: init_state_def)
next
  case (Suc n)
  from Suc.prems obtain s1 where run: "after_pages n nt tier (init_state start fs0) = Some s1"
    and step: "scrape_step nt tier s1 = Inl s"
    by (auto simp only: after_pages_Suc_end)
  note ih = Suc.IH [OF run]
  from scrape_step_Inl [OF step] obtain soup where
    s: "s = \<lparr>page = page s1 + 1,
             all_guilds = all_guilds s1 @ extract_guilds_from_page soup,
             prev_url = Some (page_url tier (page s1)),
             store = (store s1)\<lparr>tier_progress_file := (tier_progress_file (store s1))(tier \<mapsto>
               \<lparr>last_page = page s1,
                guilds_count = length (all_guilds s1 @ extract_guilds_from_page soup)\<rparr>)\<rparr>\<rparr>"
    by blast
  show ?case using ih by (simp add: s)
qed

lemma url_a: "page_url 35 (- 1) = ''https://www.wowprogress.com/pve/rating/next/-1/rating.tier35''"
  by (simp add: page_url_def BASE_URL_def str_int_def str_nat.simps)

lemma url_b: "page_url 35 0 = ''https://www.wowprogress.com/pve/rating/next/0/rating.tier35''"
  by (simp add: page_url_def BASE_URL_def str_int_def str_nat.simps)

lemma extract_a: "extract_guilds_from_page page_a = [alpha_guild]"
  by (simp add: extract_guilds_from_page_def page_defs extract_row_def dom_defs str_defs alpha_guild_def)

lemma extract_b: "extract_guilds_from_page page_b = [bravo_guild]"
  by (simp add: extract_guilds_from_page_def page_defs extract_row_def dom_defs str_defs bravo_guild_def)

lemma up_a: "fetch_page example_net_up (page_url 35 (- 1)) r = Some page_a"
  by (simp add: fetch_page_attempts example_net_up_def)

lemma up_b: "fetch_page example_net_up (page_url 35 0) r = Some page_b"
  by (simp add: fetch_page_attempts example_net_up_def url_a url_b)

lemma down_a: "fetch_page example_net_down (page_url 35 (- 1)) r = Some page_a"
  by (simp add: fetch_page_attempts example_net_down_def)

lemma down_b: "fetch_page example_net_down (page_url 35 0) r = None"
  by (simp add: fetch_page_attempts example_net_down_def url_a url_b retry_count_def)

lemma dead_fetch: "fetch_page example_net_dead u r = None"
  by (simp add: fetch_page_attempts example_net_dead_def retry_count_def)

lemma first_step_up:
  "scrape_step example_net_up 35 (init_state (- 1) no_files) = Inl state_after_first_page"
  by (simp add: scrape_step_def Let_def init_state_def up_a extract_a mythic_a
      state_after_first_page_def checkpoint_files_def no_files_def)

lemma first_step_down:
  "scrape_step example_net_down 35 (init_state (- 1) no_files) = Inl state_after_first_page"
  by (simp add: scrape_step_def Let_def init_state_def down_a extract_a mythic_a
      state_after_first_page_def checkpoint_files_def no_files_def)

lemma second_step_up:
  "scrape_step example_net_up 35 state_after_first_page
     = Inr ([alpha_guild, bravo_guild], checkpoint_files)"
  by (simp add: scrape_step_def Let_def state_after_first_page_def up_b extract_b mythic_b)

lemma resumed_step_up:
  "scrape_step example_net_up 35 (init_state 0 fs) = Inr ([bravo_guild], fs)"
  by (simp add: scrape_step_def Let_def init_state_def up_b extract_b mythic_b)

lemma full_run_up:
  "scrape_tier_guilds example_net_up 35 (- 1) no_files
     = Some ([alpha_guild, bravo_guild], checkpoint_files)"
  by (simp add: scrape_tier_guilds_def scrape_loop_Inl [OF first_step_up]
      scrape_loop_Inr [OF second_step_up])

lemma resumed_run_up: "scrape_tier_guilds example_net_up 35 0 fs = Some ([bravo_guild], fs)"
  by (simp add: scrape_tier_guilds_def scrape_loop_Inr [OF resumed_step_up])

lemma run_down: "after_pages (Suc 0) example_net_down 35 (init_state (- 1) no_files)
    = Some state_after_first_page"
  by (simp add: first_step_down)

lemma run_up: "after_pages (Suc 0) example_net_up 35 (init_state (- 1) no_files)
    = Some state_after_first_page"
  by (simp add: first_step_up)

lemma fail_down:
  "fetch_page example_net_down (page_url 35 (page state_after_first_page))
     (Some (referer_of 35 state_after_first_page)) = None"
  by (simp add: state_after_first_page_def down_b)

text \<open>
  A crawl of one tier changes nothing in the files but that tier's progress entry, so
  when the orchestrator comes to a tier, the entry it loaded before the loop is still
  the stored one, and the start offset is above it.
\<close>

lemma scrape_tier_guilds_files:
  assumes "scrape_tier_guilds nt tier sp fs = Some (gs, fs')"
  shows "guilds_with_mythic_file fs' = guilds_with_mythic_file fs
       \<and> final_guilds_file fs' = final_guilds_file fs
       \<and> (\<forall>t. t \<noteq> tier \<longrightarrow> tier_progress_file fs' t = tier_progress_file fs t)"
proof -
  from assms have "scrape_loop nt tier (init_state sp fs) = Some (gs, fs')"
    by (simp add: scrape_tier_guilds_def)
  from scrape_loop_Some_run [OF this] obtain n s where
    run: "after_pages n nt tier (init_state sp fs) = Some s"
    and fin: "scrape_step nt tier s = Inr (gs, fs')"
    by blast
  from scrape_step_Inr_store [OF fin] have "fs' = store s" by simp
  with after_pages_invariant [OF run] show ?thesis by simp
qed

lemma process_tier_progress:
  assumes "process_tier nt tp t (agd, u, fs) = Some (agd', u', fs')"
  shows "\<forall>t'. t' \<noteq> t \<longrightarrow> tier_progress_file fs' t' = tier_progress_file fs t'"
proof (cases "is_completed agd t")
  case True
  with assms show ?thesis by (simp add: process_tier_def)
next
  case False
  with assms obtain found fs1 where
    sc: "scrape_tier_guilds nt t (start_page_of tp t) fs = Some (found, fs1)"
    and fs': "fs' = fs1\<lparr>guilds_with_mythic_file := agd(t \<mapsto> \<lparr>completed = True, guilds = found\<rparr>)\<rparr>"
    by (auto simp: process_tier_def Let_def split: option.splits)
  from scrape_tier_guilds_files [OF sc] fs' show ?thesis by simp
qed

lemma process_tiers_progress:
  "process_tiers nt tp ts (agd, u, fs) = Some (agd', u', fs') \<Longrightarrow>
   \<forall>t. t \<notin> set ts \<longrightarrow> tier_progress_file fs' t = tier_progress_file fs t"
proof (induction ts arbitrary: agd u fs)
  case Nil
  then show ?case by simp
next
  case (Cons t ts)
  from Cons.prems obtain agd1 u1 fs1 where
    one: "process_tier nt tp t (agd, u, fs) = Some (agd1, u1, fs1)"
    and rest: "process_tiers nt tp ts (agd1, u1, fs1) = Some (agd', u', fs')"
    by (auto split: option.splits)
  from Cons.IH [OF rest] process_tier_progress [OF one] show ?case by simp
qed

lemma orchestrator_starts_above:
  assumes "process_tiers nt (tier_progress_file fs0) earlier (agd0, u0, fs0) = Some (agd, u, fs)"
    and "tier \<notin> set earlier"
  shows "\<forall>p. tier_progress_file fs tier = Some p \<longrightarrow>
           last_page p < start_page_of (tier_progress_file fs0) tier"
proof -
  from process_tiers_progress [OF assms(1)] assms(2)
  have "tier_progress_file fs tier = tier_progress_file fs0 tier" by simp
  then show ?thesis by (simp add: start_page_of_def)
qed

text \<open>
  C9. Take a crawl of one tier that starts above the offset stored for the tier (as the
  orchestrator starts it: one past the stored offset), and the state after any number
  of pages. The stored offset is below the current page; before the first page the
  files are untouched, afterwards the stored offset is the page before the current
  one. A failed fetch of the current page ends the loop and writes nothing, as does
  every other exit of the loop. When the loop goes on, the fetch of the current page
  succeeded, the checkpoint holds the current page, and every offset stored before was
  smaller. The start offset the orchestrator computes from a stored entry is above that
  entry's offset.
\<close>

theorem checkpoint_after_success:
  assumes above: "\<forall>p. tier_progress_file fs0 tier = Some p \<longrightarrow> last_page p < start"
    and run: "after_pages n nt tier (init_state start fs0) = Some s"
  shows "page s = start + int n
     \<and> (\<forall>p. tier_progress_file (store s) tier = Some p \<longrightarrow> last_page p < page s)
     \<and> (n = 0 \<longrightarrow> store s = fs0)
     \<and> (0 < n \<longrightarrow> tier_progress_file (store s) tier
           = Some \<lparr>last_page = page s - 1, guilds_count = length (all_guilds s)\<rparr>)
     \<and> (fetch_page nt (page_url tier (page s)) (Some (referer_of tier s)) = None \<longrightarrow>
          scrape_step nt tier s = Inr (all_guilds s, store s))
     \<and> (\<forall>r. scrape_step nt tier s = Inr r \<longrightarrow> snd r = store s)
     \<and> (\<forall>s'. scrape_step nt tier s = Inl s' \<longrightarrow>
          (\<exists>soup. fetch_page nt (page_url tier (page s)) (Some (referer_of tier s)) = Some soup
                  \<and> has_mythic_progress soup)
          \<and> tier_progress_file (store s') tier
              = Some \<lparr>last_page = page s, guilds_count = length (all_guilds s')\<rparr>
          \<and> (\<forall>p. tier_progress_file (store s) tier = Some p \<longrightarrow> last_page p < page s)
          \<and> after_pages (Suc n) nt tier (init_state start fs0) = Some s')
     \<and> (\<forall>tp p. tp tier = Some p \<longrightarrow> last_page p < start_page_of tp tier)"
proof -
  note inv = after_pages_invariant [OF run]
  from inv have pg: "page s = start + int n" by simp
  have orch: "\<forall>tp p. tp tier = Some p \<longrightarrow> last_page p < start_page_of tp tier"
    by (simp add: start_page_of_def)
  have below: "\<forall>p. tier_progress_file (store s) tier = Some p \<longrightarrow> last_page p < page s"
  proof (cases "n = 0")
    case True
    with inv above pg show ?thesis by simp
  next
    case False
    with inv show ?thesis by simp
  qed
  have first: "n = 0 \<longrightarrow> store s = fs0"
    using inv by simp
  have later: "0 < n \<longrightarrow> tier_progress_file (store s) tier
           = Some \<lparr>last_page = page s - 1, guilds_count = length (all_guilds s)\<rparr>"
    using inv by simp
  have failed: "fetch_page nt (page_url tier (page s)) (Some (referer_of tier s)) = None \<longrightarrow>
          scrape_step nt tier s = Inr (all_guilds s, store s)"
    by (simp add: scrape_step_fail)
  have stop: "\<forall>r. scrape_step nt tier s = Inr r \<longrightarrow> snd r = store s"
    by (simp add: scrape_step_Inr_store)
  have cont: "\<forall>s'. scrape_step nt tier s = Inl s' \<longrightarrow>
          (\<exists>soup. fetch_page nt (page_url tier (page s)) (Some (referer_of tier s)) = Some soup
                  \<and> has_mythic_progress soup)
          \<and> tier_progress_file (store s') tier
              = Some \<lparr>last_page = page s, guilds_count = length (all_guilds s')\<rparr>
          \<and> (\<forall>p. tier_progress_file (store s) tier = Some p \<longrightarrow> last_page p < page s)
          \<and> after_pages (Suc n) nt tier (init_state start fs0) = Some s'"
  proof (intro allI impI)
    fix s' assume step: "scrape_step nt tier s = Inl s'"
    from scrape_step_Inl [OF step] obtain soup where
      ok: "fetch_page nt (page_url tier (page s)) (Some (referer_of tier s)) = Some soup"
      and m: "has_mythic_progress soup"
      and s': "s' = \<lparr>page = page s + 1,
             all_guilds = all_guilds s @ extract_guilds_from_page soup,
             prev_url = Some (page_url tier (page s)),
             store = (store s)\<lparr>tier_progress_file := (tier_progress_file (store s))(tier \<mapsto>
               \<lparr>last_page = page s,
                guilds_count = length (all_guilds s @ extract_guilds_from_page soup)\<rparr>)\<rparr>\<rparr>"
      by blast
    have w: "tier_progress_file (store s') tier
              = Some \<lparr>last_page = page s, guilds_count = length (all_guilds s')\<rparr>"
      by (simp add: s')
    have nxt: "after_pages (Suc n) nt tier (init_state start fs0) = Some s'"
      using run step by (auto simp only: after_pages_Suc_end)
    from ok m have ex: "\<exists>soup. fetch_page nt (page_url tier (page s)) (Some (referer_of tier s)) = Some soup
        \<and> has_mythic_progress soup"
      by (intro exI conjI)
    show "(\<exists>soup. fetch_page nt (page_url tier (page s)) (Some (referer_of tier s)) = Some soup
                  \<and> has_mythic_progress soup)
          \<and> tier_progress_file (store s') tier
              = Some \<lparr>last_page = page s, guilds_count = length (all_guilds s')\<rparr>
          \<and> (\<forall>p. tier_progress_file (store s) tier = Some p \<longrightarrow> last_page p < page s)
          \<and> after_pages (Suc n) nt tier (init_state start fs0) = Some s'"
      by (rule conjI [OF ex conjI [OF w conjI [OF below nxt]]])
  qed
  show ?thesis
    by (rule conjI [OF pg conjI [OF below conjI [OF first conjI [OF later
          conjI [OF failed conjI [OF stop conjI [OF cont orch]]]]]]])
qed

text \<open>
  Tier 35 with its second page unreachable: after the first page the checkpoint holds
  offset -1, and the failed fetch of page 0 leaves the files as they are.
\<close>

theorem checkpoint_after_success_witness:
  "after_pages (Suc 0) example_net_down 35 (init_state (- 1) no_files) = Some state_after_first_page
   \<and> page state_after_first_page = 0
   \<and> tier_progress_file (store state_after_first_page) 35
       = Some \<lparr>last_page = - 1, guilds_count = 1\<rparr>
   \<and> scrape_step example_net_down 35 state_after_first_page
       = Inr ([alpha_guild], store state_after_first_page)"
proof -
  have above: "\<forall>p. tier_progress_file no_files 35 = Some p \<longrightarrow> last_page p < - 1"
    by (simp add: no_files_def)
  from checkpoint_after_success [OF above run_down] fail_down run_down show ?thesis
    by (simp add: state_after_first_page_def)
qed

section \<open>Tier crawler and orchestrator: a failed fetch\<close>

text \<open>
  C1 (as amended). When the fetch of a page fails after all attempts, the crawl of the
  tier returns the records accumulated so far and leaves the files as the last
  checkpoint left them (no checkpoint for the failed offset). The orchestrator then
  stores these records for the tier with \<open>completed = True\<close>, merges them, and goes on to
  the next tier; with the stored data any later invocation loads the tier's records and
  does not crawl it.
\<close>

theorem fetch_failure_stops_tier:
  assumes run: "after_pages n nt tier (init_state (start_page_of tp tier) fs) = Some s"
    and fail: "fetch_page nt (page_url tier (page s)) (Some (referer_of tier s)) = None"
    and todo: "\<not> is_completed agd tier"
  shows "scrape_tier_guilds nt tier (start_page_of tp tier) fs = Some (all_guilds s, store s)
     \<and> (n = 0 \<longrightarrow> store s = fs)
     \<and> (0 < n \<longrightarrow> tier_progress_file (store s) tier
           = Some \<lparr>last_page = page s - 1, guilds_count = length (all_guilds s)\<rparr>)
     \<and> process_tier nt tp tier (agd, uq, fs)
         = Some (agd(tier \<mapsto> \<lparr>completed = True, guilds = all_guilds s\<rparr>),
                 merge_guilds (all_guilds s) uq,
                 (store s)\<lparr>guilds_with_mythic_file :=
                    agd(tier \<mapsto> \<lparr>completed = True, guilds = all_guilds s\<rparr>)\<rparr>)
     \<and> process_tiers nt tp (tier # rest) (agd, uq, fs)
         = process_tiers nt tp rest
             (agd(tier \<mapsto> \<lparr>completed = True, guilds = all_guilds s\<rparr>),
              merge_guilds (all_guilds s) uq,
              (store s)\<lparr>guilds_with_mythic_file :=
                 agd(tier \<mapsto> \<lparr>completed = True, guilds = all_guilds s\<rparr>)\<rparr>)
     \<and> is_completed (agd(tier \<mapsto> \<lparr>completed = True, guilds = all_guilds s\<rparr>)) tier
     \<and> (\<forall>nt' tp' uq' fs'.
          process_tier nt' tp' tier (agd(tier \<mapsto> \<lparr>completed = True, guilds = all_guilds s\<rparr>), uq', fs')
            = Some (agd(tier \<mapsto> \<lparr>completed = True, guilds = all_guilds s\<rparr>),
                    merge_guilds (all_guilds s) uq', fs'))"
proof -
  note inv = after_pages_invariant [OF run]
  have "scrape_loop nt tier s = Some (all_guilds s, store s)"
    by (rule scrape_loop_Inr [OF scrape_step_fail [OF fail]])
  with scrape_loop_after_pages [OF run]
  have a: "scrape_tier_guilds nt tier (start_page_of tp tier) fs = Some (all_guilds s, store s)"
    by (simp add: scrape_tier_guilds_def)
  have b: "n = 0 \<longrightarrow> store s = fs"
    using inv by simp
  have c: "0 < n \<longrightarrow> tier_progress_file (store s) tier
           = Some \<lparr>last_page = page s - 1, guilds_count = length (all_guilds s)\<rparr>"
    using inv by simp
  have d: "process_tier nt tp tier (agd, uq, fs)
         = Some (agd(tier \<mapsto> \<lparr>completed = True, guilds = all_guilds s\<rparr>),
                 merge_guilds (all_guilds s) uq,
                 (store s)\<lparr>guilds_with_mythic_file :=
                    agd(tier \<mapsto> \<lparr>completed = True, guilds = all_guilds s\<rparr>)\<rparr>)"
    using todo a by (simp add: process_tier_def Let_def)
  have e: "process_tiers nt tp (tier # rest) (agd, uq, fs)
         = process_tiers nt tp rest
             (agd(tier \<mapsto> \<lparr>completed = True, guilds = all_guilds s\<rparr>),
              merge_guilds (all_guilds s) uq,
              (store s)\<lparr>guilds_with_mythic_file :=
                 agd(tier \<mapsto> \<lparr>completed = True, guilds = all_guilds s\<rparr>)\<rparr>)"
    by (simp add: d)
  have f: "is_completed (agd(tier \<mapsto> \<lparr>completed = True, guilds = all_guilds s\<rparr>)) tier"
    by (simp add: is_completed_def)
  have g: "\<forall>nt' tp' uq' fs'.
          process_tier nt' tp' tier (agd(tier \<mapsto> \<lparr>completed = True, guilds = all_guilds s\<rparr>), uq', fs')
            = Some (agd(tier \<mapsto> \<lparr>completed = True, guilds = all_guilds s\<rparr>),
                    merge_guilds (all_guilds s) uq', fs')"
    by (simp add: process_tier_def is_completed_def)
  show ?thesis
    by (rule conjI [OF a conjI [OF b conjI [OF c conjI [OF d conjI [OF e conjI [OF f g]]]]]])
qed

text \<open>Tier 35 with its second page unreachable, from empty files.\<close>

theorem fetch_failure_stops_tier_witness:
  "after_pages (Suc 0) example_net_down 35 (init_state (start_page_of Map.empty 35) no_files)
     = Some state_after_first_page
   \<and> fetch_page example_net_down (page_url 35 (page state_after_first_page))
       (Some (referer_of 35 state_after_first_page)) = None
   \<and> scrape_tier_guilds example_net_down 35 (start_page_of Map.empty 35) no_files
       = Some ([alpha_guild], checkpoint_files)
   \<and> tier_progress_file checkpoint_files 35 = Some \<lparr>last_page = - 1, guilds_count = 1\<rparr>
   \<and> process_tier example_net_down Map.empty 35 (Map.empty, [], no_files)
       = Some (partial_data, [(''Alpha|Kazzak'', alpha_guild)], files_after_failure)"
proof -
  have sp: "start_page_of Map.empty 35 = - 1"
    by (simp add: start_page_of_def)
  have run: "after_pages (Suc 0) example_net_down 35 (init_state (start_page_of Map.empty 35) no_files)
     = Some state_after_first_page"
    by (simp only: sp run_down)
  have todo: "\<not> is_completed Map.empty 35"
    by (simp add: is_completed_def)
  have key: "guild_key alpha_guild = ''Alpha|Kazzak''"
    by (simp add: guild_key_def alpha_guild_def)
  from fetch_failure_stops_tier [OF run fail_down todo, of "[]" "[]"] run fail_down show ?thesis
    by (simp add: state_after_first_page_def partial_data_def files_after_failure_def
        checkpoint_files_def key)
qed

text \<open>
  The claim as stated fails: after the failed fetch of page 0 the tier is stored as
  completed with the records of page -1 only, and a later invocation over a site that
  answers returns the same state without fetching page 0, where an uninterrupted crawl
  gives both records.
\<close>

theorem failed_tier_marked_completed:
  "process_tier example_net_down Map.empty 35 (Map.empty, [], no_files)
     = Some (partial_data, [(''Alpha|Kazzak'', alpha_guild)], files_after_failure)
   \<and> is_completed (guilds_with_mythic_file files_after_failure) 35
   \<and> process_tier example_net_up (tier_progress_file files_after_failure) 35
         (guilds_with_mythic_file files_after_failure, [], files_after_failure)
     = Some (partial_data, [(''Alpha|Kazzak'', alpha_guild)], files_after_failure)
   \<and> map_option fst (scrape_tier_guilds example_net_up 35 (- 1) no_files)
       = Some [alpha_guild, bravo_guild]"
proof -
  have sp: "start_page_of Map.empty 35 = - 1"
    by (simp add: start_page_of_def)
  have "scrape_loop example_net_down 35 state_after_first_page
      = Some ([alpha_guild], checkpoint_files)"
    using scrape_loop_Inr [OF scrape_step_fail [OF fail_down]]
    by (simp add: state_after_first_page_def)
  then have run: "scrape_tier_guilds example_net_down 35 (- 1) no_files
      = Some ([alpha_guild], checkpoint_files)"
    by (simp add: scrape_tier_guilds_def scrape_loop_Inl [OF first_step_down])
  have key: "guild_key alpha_guild = ''Alpha|Kazzak''"
    by (simp add: guild_key_def alpha_guild_def)
  have a: "process_tier example_net_down Map.empty 35 (Map.empty, [], no_files)
     = Some (partial_data, [(''Alpha|Kazzak'', alpha_guild)], files_after_failure)"
    by (simp add: process_tier_def Let_def is_completed_def sp run key partial_data_def
        files_after_failure_def checkpoint_files_def)
  have b: "is_completed (guilds_with_mythic_file files_after_failure) 35"
    by (simp add: files_after_failure_def partial_data_def is_completed_def)
  have c: "process_tier example_net_up (tier_progress_file files_after_failure) 35
         (guilds_with_mythic_file files_after_failure, [], files_after_failure)
     = Some (partial_data, [(''Alpha|Kazzak'', alpha_guild)], files_after_failure)"
    by (simp add: process_tier_def is_completed_def files_after_failure_def partial_data_def key)
  have d: "map_option fst (scrape_tier_guilds example_net_up 35 (- 1) no_files)
       = Some [alpha_guild, bravo_guild]"
    by (simp add: full_run_up)
  show ?thesis
    by (rule conjI [OF a conjI [OF b conjI [OF c d]]])
qed

section \<open>Tier crawler: resuming\<close>

lemma step_sim:
  assumes pos: "same_position tier pre s t"
  shows "(case scrape_step nt tier s of
            Inl s' \<Rightarrow> (\<exists>t'. scrape_step nt tier t = Inl t' \<and> same_position tier pre s' t')
          | Inr r \<Rightarrow> (\<exists>r'. scrape_step nt tier t = Inr r' \<and> fst r = pre @ fst r'))"
proof -
  from pos have pg: "page s = page t" and rf: "referer_of tier s = referer_of tier t"
    and ag: "all_guilds s = pre @ all_guilds t"
    by (simp_all add: same_position_def)
  show ?thesis
  proof (cases "fetch_page nt (page_url tier (page t)) (Some (referer_of tier t))")
    case None
    then have "fetch_page nt (page_url tier (page s)) (Some (referer_of tier s)) = None"
      by (simp only: pg rf)
    from scrape_step_fail [OF this] scrape_step_fail [OF None] show ?thesis
      by (simp add: ag)
  next
    case (Some soup)
    then have fs: "fetch_page nt (page_url tier (page s)) (Some (referer_of tier s)) = Some soup"
      by (simp only: pg rf)
    show ?thesis
    proof (cases "has_mythic_progress soup")
      case True
      have "same_position tier pre
          \<lparr>page = page s + 1,
            all_guilds = all_guilds s @ extract_guilds_from_page soup,
            prev_url = Some (page_url tier (page s)),
            store = (store s)\<lparr>tier_progress_file := (tier_progress_file (store s))(tier \<mapsto>
              \<lparr>last_page = page s,
               guilds_count = length (all_guilds s @ extract_guilds_from_page soup)\<rparr>)\<rparr>\<rparr>
          \<lparr>page = page t + 1,
            all_guilds = all_guilds t @ extract_guilds_from_page soup,
            prev_url = Some (page_url tier (page t)),
            store = (store t)\<lparr>tier_progress_file := (tier_progress_file (store t))(tier \<mapsto>
              \<lparr>last_page = page t,
               guilds_count = length (all_guilds t @ extract_guilds_from_page soup)\<rparr>)\<rparr>\<rparr>"
        by (simp add: same_position_def referer_of_def pg ag)
      with scrape_step_cont [OF fs True] scrape_step_cont [OF Some True] show ?thesis
        by simp
    next
      case False
      from scrape_step_stop [OF fs False] scrape_step_stop [OF Some False] show ?thesis
        by (simp add: ag)
    qed
  qed
qed

lemma step_sim_Inl:
  "same_position tier pre s t \<Longrightarrow> scrape_step nt tier s = Inl s' \<Longrightarrow>
   \<exists>t'. scrape_step nt tier t = Inl t' \<and> same_position tier pre s' t'"
  using step_sim [of tier pre s t nt] by simp

lemma step_sim_Inr:
  "same_position tier pre s t \<Longrightarrow> scrape_step nt tier s = Inr r \<Longrightarrow>
   \<exists>r'. scrape_step nt tier t = Inr r' \<and> fst r = pre @ fst r'"
  using step_sim [of tier pre s t nt] by simp

lemma step_sim_Inl_rev:
  assumes "same_position tier pre s t" and "scrape_step nt tier t = Inl t'"
  shows "\<exists>s'. scrape_step nt tier s = Inl s' \<and> same_position tier pre s' t'"
proof (cases "scrape_step nt tier s")
  case (Inl s')
  from step_sim_Inl [OF assms(1) Inl] assms(2) Inl show ?thesis by simp
next
  case (Inr r)
  from step_sim_Inr [OF assms(1) Inr] assms(2) show ?thesis by simp
qed

lemma step_sim_Inr_rev:
  assumes "same_position tier pre s t" and "scrape_step nt tier t = Inr r'"
  shows "\<exists>r. scrape_step nt tier s = Inr r \<and> fst r = pre @ fst r'"
proof (cases "scrape_step nt tier s")
  case (Inl s')
  from step_sim_Inl [OF assms(1) Inl] assms(2) show ?thesis by simp
next
  case (Inr r)
  from step_sim_Inr [OF assms(1) Inr] assms(2) Inr show ?thesis by simp
qed

lemma run_sim:
  "same_position tier pre s t \<Longrightarrow> after_pages n nt tier s = Some s' \<Longrightarrow>
   \<exists>t'. after_pages n nt tier t = Some t' \<and> same_position tier pre s' t'"
proof (induction n arbitrary: s t)
  case 0
  then show ?case by simp
next
  case (Suc n)
  from Suc.prems(2) obtain s1 where s1: "scrape_step nt tier s = Inl s1"
    and rest: "after_pages n nt tier s1 = Some s'"
    by (auto split: sum.splits)
  from step_sim_Inl [OF Suc.prems(1) s1] obtain t1 where t1: "scrape_step nt tier t = Inl t1"
    and pos: "same_position tier pre s1 t1"
    by blast
  from Suc.IH [OF pos rest] t1 show ?case by simp
qed

lemma run_sim_rev:
  "same_position tier pre s t \<Longrightarrow> after_pages n nt tier t = Some t' \<Longrightarrow>
   \<exists>s'. after_pages n nt tier s = Some s' \<and> same_position tier pre s' t'"
proof (induction n arbitrary: s t)
  case 0
  then show ?case by simp
next
  case (Suc n)
  from Suc.prems(2) obtain t1 where t1: "scrape_step nt tier t = Inl t1"
    and rest: "after_pages n nt tier t1 = Some t'"
    by (auto split: sum.splits)
  from step_sim_Inl_rev [OF Suc.prems(1) t1] obtain s1 where s1: "scrape_step nt tier s = Inl s1"
    and pos: "same_position tier pre s1 t1"
    by blast
  from Suc.IH [OF pos rest] s1 show ?case by simp
qed

lemma loop_sim:
  assumes pos: "same_position tier pre s t"
  shows "map_option fst (scrape_loop nt tier s)
       = map_option ((@) pre) (map_option fst (scrape_loop nt tier t))"
proof (cases "scrape_loop nt tier s")
  case None
  have "scrape_loop nt tier t = None"
  proof (rule ccontr)
    assume "scrape_loop nt tier t \<noteq> None"
    then obtain r' where "scrape_loop nt tier t = Some r'" by auto
    from scrape_loop_Some_run [OF this] obtain n t' where run: "after_pages n nt tier t = Some t'"
      and fin: "scrape_step nt tier t' = Inr r'"
      by blast
    from run_sim_rev [OF pos run] obtain s' where run': "after_pages n nt tier s = Some s'"
      and pos': "same_position tier pre s' t'"
      by blast
    from step_sim_Inr_rev [OF pos' fin] obtain r where "scrape_step nt tier s' = Inr r"
      by blast
    then have "scrape_loop nt tier s' = Some r" by (rule scrape_loop_Inr)
    with scrape_loop_after_pages [OF run'] None show False by simp
  qed
  with None show ?thesis by simp
next
  case (Some r)
  from scrape_loop_Some_run [OF this] obtain n s' where run: "after_pages n nt tier s = Some s'"
    and fin: "scrape_step nt tier s' = Inr r"
    by blast
  from run_sim [OF pos run] obtain t' where run': "after_pages n nt tier t = Some t'"
    and pos': "same_position tier pre s' t'"
    by blast
  from step_sim_Inr [OF pos' fin] obtain r' where fin': "scrape_step nt tier t' = Inr r'"
    and r: "fst r = pre @ fst r'"
    by blast
  from fin' have "scrape_loop nt tier t' = Some r'" by (rule scrape_loop_Inr)
  with scrape_loop_after_pages [OF run'] have "scrape_loop nt tier t = Some r'" by simp
  with Some r show ?thesis by simp
qed

text \<open>
  C2 (as amended). Let a crawl of a tier from a start offset of at least -1 have passed
  one or more pages. The checkpoint then holds the page before the current one, so a
  resumed crawl starts at the current page; over the same pages it returns exactly the
  records of the pages from there on: the uninterrupted crawl's list is the records
  accumulated before, followed by the resumed crawl's list (and one crawl returns iff
  the other does).
\<close>

theorem resume_returns_suffix:
  assumes run: "after_pages n nt tier (init_state start fs0) = Some s"
    and n: "0 < n" and start: "- 1 \<le> start"
  shows "tier_progress_file (store s) tier
           = Some \<lparr>last_page = page s - 1, guilds_count = length (all_guilds s)\<rparr>
       \<and> start_page_of (tier_progress_file (store s)) tier = page s
       \<and> map_option fst (scrape_tier_guilds nt tier start fs0)
           = map_option ((@) (all_guilds s)) (map_option fst (scrape_tier_guilds nt tier (page s) fs1))"
proof -
  note inv = after_pages_invariant [OF run]
  from inv n have saved: "tier_progress_file (store s) tier
      = Some \<lparr>last_page = page s - 1, guilds_count = length (all_guilds s)\<rparr>"
    and prev: "prev_url s = Some (page_url tier (page s - 1))"
    and pg: "page s = start + int n"
    by simp_all
  from saved have resume: "start_page_of (tier_progress_file (store s)) tier = page s"
    by (simp add: start_page_of_def)
  from pg n start have "- 1 < page s" by simp
  with prev have "same_position tier (all_guilds s) s (init_state (page s) fs1)"
    by (simp add: same_position_def init_state_def referer_of_def)
  from loop_sim [OF this] have "map_option fst (scrape_loop nt tier s)
      = map_option ((@) (all_guilds s)) (map_option fst (scrape_tier_guilds nt tier (page s) fs1))"
    by (simp add: scrape_tier_guilds_def)
  with scrape_loop_after_pages [OF run] have "map_option fst (scrape_tier_guilds nt tier start fs0)
      = map_option ((@) (all_guilds s)) (map_option fst (scrape_tier_guilds nt tier (page s) fs1))"
    by (simp add: scrape_tier_guilds_def)
  then show ?thesis
    by (rule conjI [OF saved conjI [OF resume]])
qed

text \<open>Tier 35: the whole crawl gives Alpha and Bravo, the crawl resumed at page 0 gives Bravo.\<close>

theorem resume_returns_suffix_witness:
  "after_pages (Suc 0) example_net_up 35 (init_state (- 1) no_files) = Some state_after_first_page
   \<and> start_page_of (tier_progress_file (store state_after_first_page)) 35 = 0
   \<and> map_option fst (scrape_tier_guilds example_net_up 35 (- 1) no_files)
       = map_option ((@) [alpha_guild])
           (map_option fst (scrape_tier_guilds example_net_up 35 0 checkpoint_files))"
  using resume_returns_suffix [OF run_up, of checkpoint_files] run_up
  by (simp add: state_after_first_page_def)

text \<open>
  The claim as stated fails: resumed at the stored offset plus one, the crawl returns
  Bravo alone, the uninterrupted crawl Alpha and Bravo.
\<close>

theorem resume_loses_earlier_pages:
  "start_page_of (tier_progress_file checkpoint_files) 35 = 0
   \<and> map_option fst (scrape_tier_guilds example_net_up 35 0 checkpoint_files) = Some [bravo_guild]
   \<and> map_option fst (scrape_tier_guilds example_net_up 35 (- 1) no_files)
       = Some [alpha_guild, bravo_guild]
   \<and> [bravo_guild] \<noteq> [alpha_guild, bravo_guild]"
  by (simp add: resumed_run_up full_run_up start_page_of_def checkpoint_files_def)

section \<open>Orchestrator: tier order and merge\<close>

lemma merge_guilds_map_of:
  "map_of (merge_guilds gs u) = map_of u ++ map_of (rev (map (\<lambda>g. (guild_key g, g)) gs))"
proof (induction gs arbitrary: u)
  case Nil
  then show ?case by simp
next
  case (Cons g gs)
  show ?case
    by (auto simp: Cons.IH update_conv' fun_eq_iff map_add_def split: option.splits)
qed

lemma map_of_rev_find:
  "map_of (rev (map (\<lambda>g. (guild_key g, g)) gs)) k = List.find (\<lambda>g. guild_key g = k) (rev gs)"
  by (induction gs rule: rev_induct) auto

lemma process_tier_Some:
  assumes "process_tier nt tp t (agd, u, fs) = Some (agd', u', fs')"
  shows "is_completed agd' t \<and> u' = merge_guilds (guilds (the (agd' t))) u
       \<and> (\<forall>t'. t' \<noteq> t \<longrightarrow> agd' t' = agd t')"
proof (cases "is_completed agd t")
  case True
  with assms show ?thesis by (auto simp: process_tier_def)
next
  case False
  with assms show ?thesis
    by (auto simp: process_tier_def Let_def is_completed_def split: option.splits)
qed

lemma process_tiers_Some:
  "distinct ts \<Longrightarrow> process_tiers nt tp ts (agd, u, fs) = Some (agd', u', fs') \<Longrightarrow>
   (\<forall>t \<in> set ts. is_completed agd' t) \<and> (\<forall>t. t \<notin> set ts \<longrightarrow> agd' t = agd t)
   \<and> map_of u' = map_of u ++
       map_of (rev (map (\<lambda>g. (guild_key g, g)) (concat (map (\<lambda>t. guilds (the (agd' t))) ts))))"
proof (induction ts arbitrary: agd u fs)
  case Nil
  then show ?case by simp
next
  case (Cons t ts)
  from Cons.prems(2) obtain agd1 u1 fs1 where
    one: "process_tier nt tp t (agd, u, fs) = Some (agd1, u1, fs1)"
    and rest: "process_tiers nt tp ts (agd1, u1, fs1) = Some (agd', u', fs')"
    by (auto split: option.splits)
  from Cons.prems(1) have dts: "distinct ts" and nin: "t \<notin> set ts" by simp_all
  note ih = Cons.IH [OF dts rest]
  note pt = process_tier_Some [OF one]
  from ih nin have same: "agd' t = agd1 t" by simp
  with pt have ct: "is_completed agd' t"
    by (simp add: is_completed_def)
  from pt same have u1: "map_of u1 = map_of u ++ map_of (rev (map (\<lambda>g. (guild_key g, g)) (guilds (the (agd' t)))))"
    by (simp add: merge_guilds_map_of)
  have other: "\<forall>t'. t' \<notin> set (t # ts) \<longrightarrow> agd' t' = agd t'"
    using ih pt by simp
  have "map_of u' = map_of u1 ++
       map_of (rev (map (\<lambda>g. (guild_key g, g)) (concat (map (\<lambda>t. guilds (the (agd' t))) ts))))"
    using ih by simp
  then have m: "map_of u' = map_of u ++
       map_of (rev (map (\<lambda>g. (guild_key g, g)) (concat (map (\<lambda>t. guilds (the (agd' t))) (t # ts)))))"
    by (simp add: u1)
  from ct ih have all: "\<forall>t' \<in> set (t # ts). is_completed agd' t'" by simp
  from all other m show ?case by blast
qed

lemma tier_range_list: "tier_range = [35, 34, 33, 32, 31, 30, 29, 28, 27, 26, 25, 24, 23, 22]"
  by (simp add: tier_range_def range_down_def END_TIER_def START_TIER_def upt_rec)

lemma dead_scrape: "scrape_tier_guilds example_net_dead t sp fs = Some ([], fs)"
proof -
  have "scrape_step example_net_dead t (init_state sp fs) = Inr ([], fs)"
    by (simp add: scrape_step_def dead_fetch init_state_def)
  then show ?thesis
    by (simp add: scrape_tier_guilds_def scrape_loop_Inr)
qed

text \<open>
  C5. The tiers are processed from 35 down to 22, both included. When the loop over
  the tiers returns, every tier is stored as completed, and the record the merged
  dictionary holds for a key is the last record with that key in the tiers' lists
  taken in processing order: the record of the last tier processed, the oldest, that
  has the key. Merging a tier's list overwrites whatever the dictionary held for the
  keys of that list.
\<close>

theorem tiers_descending_last_wins:
  "tier_range = [35, 34, 33, 32, 31, 30, 29, 28, 27, 26, 25, 24, 23, 22]
   \<and> (\<forall>agd uq fs. process_tiers nt tp tier_range (agd0, [], fs0) = Some (agd, uq, fs) \<longrightarrow>
        (\<forall>t \<in> set tier_range. is_completed agd t)
        \<and> (\<forall>k. map_of uq k
              = List.find (\<lambda>g. guild_key g = k)
                  (rev (concat (map (\<lambda>t. guilds (the (agd t))) tier_range)))))
   \<and> (\<forall>gs uq. \<forall>g \<in> set gs. map_of (merge_guilds gs uq) (guild_key g)
          = List.find (\<lambda>h. guild_key h = guild_key g) (rev gs))"
proof -
  have d: "distinct tier_range"
    by (simp add: tier_range_list)
  have run: "(\<forall>t \<in> set tier_range. is_completed agd t)
      \<and> (\<forall>k. map_of uq k = List.find (\<lambda>g. guild_key g = k)
                  (rev (concat (map (\<lambda>t. guilds (the (agd t))) tier_range))))"
    if "process_tiers nt tp tier_range (agd0, [], fs0) = Some (agd, uq, fs)" for agd uq fs
    using process_tiers_Some [OF d that] by (simp add: map_of_rev_find)
  have over: "map_of (merge_guilds gs uq) (guild_key g)
      = List.find (\<lambda>h. guild_key h = guild_key g) (rev gs)" if "g \<in> set gs" for gs uq g
  proof -
    from that have "List.find (\<lambda>h. guild_key h = guild_key g) (rev gs) \<noteq> None"
      by (auto simp: find_None_iff)
    then show ?thesis
      by (auto simp: merge_guilds_map_of map_add_def map_of_rev_find split: option.splits)
  qed
  from run have R: "\<forall>agd uq fs. process_tiers nt tp tier_range (agd0, [], fs0) = Some (agd, uq, fs) \<longrightarrow>
        (\<forall>t \<in> set tier_range. is_completed agd t)
        \<and> (\<forall>k. map_of uq k
              = List.find (\<lambda>g. guild_key g = k)
                  (rev (concat (map (\<lambda>t. guilds (the (agd t))) tier_range))))"
    by blast
  from over have O: "\<forall>gs uq. \<forall>g \<in> set gs. map_of (merge_guilds gs uq) (guild_key g)
          = List.find (\<lambda>h. guild_key h = guild_key g) (rev gs)"
    by blast
  show ?thesis
    by (rule conjI [OF tier_range_list conjI [OF R O]])
qed

text \<open>
  Tier 35 and tier 22 both hold a record for Alpha on Kazzak, with different URLs; the
  other tiers are empty. The merged dictionary holds the record of tier 22.
\<close>

theorem tiers_descending_last_wins_witness:
  "map_option (\<lambda>st. fst (snd st))
     (process_tiers example_net_dead Map.empty tier_range (two_tier_data, [], no_files))
     = Some [(''Alpha|Kazzak'', alpha_old)]
   \<and> guild_key alpha_guild = guild_key alpha_old
   \<and> alpha_guild \<noteq> alpha_old"
proof -
  have key: "guild_key alpha_guild = ''Alpha|Kazzak''" "guild_key alpha_old = ''Alpha|Kazzak''"
    by (simp_all add: guild_key_def alpha_guild_def alpha_old_def)
  have run: "map_option (\<lambda>st. fst (snd st))
     (process_tiers example_net_dead Map.empty tier_range (two_tier_data, [], no_files))
     = Some [(''Alpha|Kazzak'', alpha_old)]"
    by (simp add: tier_range_list process_tier_def is_completed_def two_tier_data_def
        dead_scrape Let_def key)
  have diff: "alpha_guild \<noteq> alpha_old"
    by (simp add: alpha_guild_def alpha_old_def)
  from tiers_descending_last_wins [of example_net_dead Map.empty two_tier_data no_files]
    run key diff show ?thesis
    by simp
qed

section \<open>The combine tool: first occurrence wins, sorted output\<close>











end
